theory Spec2Isabelle
  imports Main "HOL-Library.Sublist"
begin

section \<open>The mail client of go-smtp (smtp.go)\<close>

text \<open>
  Go strings are byte strings: they are modelled as \<open>string\<close> (a list of 8-bit
  characters). Go's \<open>int\<close> is taken at its 64-bit width and modelled as \<open>int\<close>, the
  bound written out where the standard library depends on it.
\<close>

subsection \<open>Data\<close>

text \<open>\<^verbatim>\<open>type Email struct { To, Cc, Bcc []string; Subject, Body string }\<close>\<close>

record Email =
  To :: "string list"
  Cc :: "string list"
  Bcc :: "string list"
  Subject :: string
  Body :: string

text \<open>The carriage return and line feed that end every line of the message.\<close>

definition CRLF :: string where
  "CRLF = [CHR 0x0D, CHR 0x0A]"

text \<open>\<^verbatim>\<open>strings.Join(elems, sep)\<close>: the elements with the separator between them.\<close>

fun Join :: "string list \<Rightarrow> string \<Rightarrow> string" where
  "Join [] sep = []"
| "Join [x] sep = x"
| "Join (x # y # ys) sep = x @ sep @ Join (y # ys) sep"

subsection \<open>The composed message (SendMail, lines 126 to 143)\<close>

definition ccStmt :: "Email \<Rightarrow> string" where
  "ccStmt email =
     (if length (Cc email) \<noteq> 0 then ''Cc: '' @ Join (Cc email) '','' @ CRLF else [])"

definition bccStmt :: "Email \<Rightarrow> string" where
  "bccStmt email =
     (if length (Bcc email) \<noteq> 0 then ''Bcc: '' @ Join (Bcc email) '','' @ CRLF else [])"

definition message :: "Email \<Rightarrow> string" where
  "message email =
     ''Subject: '' @ Subject email @ CRLF @
     ''To: '' @ Join (To email) '','' @ CRLF @
     ccStmt email @
     bccStmt email @
     CRLF @
     Body email @ CRLF"

text \<open>
  The header block as a list of lines, each of which is written with its line end: the
  reading of the message that the properties below compare the code with.
\<close>

definition header_lines :: "Email \<Rightarrow> string list" where
  "header_lines email =
     [''Subject: '' @ Subject email, ''To: '' @ Join (To email) '','']
     @ (if Cc email = [] then [] else [''Cc: '' @ Join (Cc email) '',''])
     @ (if Bcc email = [] then [] else [''Bcc: '' @ Join (Bcc email) '',''])"

definition with_line_ends :: "string list \<Rightarrow> string" where
  "with_line_ends ls = concat (map (\<lambda>l. l @ CRLF) ls)"

subsection \<open>Errors\<close>

text \<open>
  The code's errors are values built by \<^verbatim>\<open>fmt.Errorf\<close>; one constructor stands for
  each format string of smtp.go and carries the text of the wrapped error
  (\<^verbatim>\<open>err.Error()\<close>). \<open>error_text\<close> gives the message the Go value prints.
\<close>

datatype error =
    AuthError
  | ConnectionError string
  | TLSError string
  | AuthFailure string
  | EnvelopeError string
  | RecipientError string
  | DataPhaseError string
  | SendError string string string string

fun error_text :: "error \<Rightarrow> string" where
  "error_text AuthError = ''auth error, empty auth''"
| "error_text (ConnectionError e) = ''client error, failed to dial; '' @ e"
| "error_text (TLSError e) = ''client error, failed to start tls; '' @ e"
| "error_text (AuthFailure e) = ''client error, failed to apply auth; '' @ e"
| "error_text (EnvelopeError e) = ''client error, failed to create mail; '' @ e"
| "error_text (RecipientError e) = ''send error, failed to add recipients; '' @ e"
| "error_text (DataPhaseError e) = ''send error, failed to create data; '' @ e"
| "error_text (SendError sender h p e) =
     ''send error, failed to send email from '' @ sender @ '' ['' @ h @ '':'' @ p @ ''], '' @ e"

subsection \<open>Decimal conversion (strconv.Itoa and strconv.Atoi of the Go library)\<close>

text \<open>The decimal digits of an unsigned number, most significant first.\<close>

function formatBits :: "nat \<Rightarrow> string" where
  "formatBits n =
     (if n < 10 then [char_of (48 + n)]
      else formatBits (n div 10) @ [char_of (48 + n mod 10)])"
  by pat_completeness auto
termination
  by (relation "measure id") auto

declare formatBits.simps [simp del]

definition Itoa :: "int \<Rightarrow> string" where
  "Itoa i = (if i < 0 then CHR ''-'' # formatBits (nat (- i)) else formatBits (nat i))"

datatype NumError = ErrSyntax | ErrRange

text \<open>
  The fast path of \<^verbatim>\<open>Atoi\<close>: \<^verbatim>\<open>ch -= '0'\<close> on a byte wraps modulo 256, a result
  above 9 is a syntax error (\<open>None\<close>).
\<close>

fun atoi_loop :: "int \<Rightarrow> string \<Rightarrow> int option" where
  "atoi_loop n [] = Some n"
| "atoi_loop n (ch # cs) =
     (let d = (of_char ch + 256 - 48) mod 256 :: nat
      in if d > 9 then None else atoi_loop (n * 10 + int d) cs)"

definition maxUint64 :: nat where
  "maxUint64 = 2 ^ 64 - 1"

text \<open>
  \<^verbatim>\<open>ParseUint(s, 10, 64)\<close>: anything but a decimal digit is a syntax error; an
  overflow returns the largest value with a range error as soon as it is seen.
\<close>

fun parseUint_loop :: "nat \<Rightarrow> string \<Rightarrow> nat \<times> NumError option" where
  "parseUint_loop n [] = (n, None)"
| "parseUint_loop n (c # cs) =
     (if \<not> (48 \<le> (of_char c :: nat) \<and> (of_char c :: nat) \<le> 57) then (0, Some ErrSyntax)
      else if n \<ge> maxUint64 div 10 + 1 then (maxUint64, Some ErrRange)
      else
        (let n10 = n * 10; n1 = (n10 + (of_char c - 48)) mod 2 ^ 64
         in if n1 < n10 \<or> n1 > maxUint64 then (maxUint64, Some ErrRange)
            else parseUint_loop n1 cs))"

definition ParseUint :: "string \<Rightarrow> nat \<times> NumError option" where
  "ParseUint s = (if s = [] then (0, Some ErrSyntax) else parseUint_loop 0 s)"

text \<open>\<^verbatim>\<open>ParseInt(s, 10, 0)\<close> with a 64-bit \<^verbatim>\<open>int\<close>.\<close>

definition ParseInt :: "string \<Rightarrow> int \<times> NumError option" where
  "ParseInt s =
     (case s of
        [] \<Rightarrow> (0, Some ErrSyntax)
      | c # cs \<Rightarrow>
          (let neg = (c = CHR ''-'');
               s' = (if c = CHR ''+'' \<or> c = CHR ''-'' then cs else s);
               (un, err) = ParseUint s';
               cutoff = (2 ^ 63 :: nat)
           in if err = Some ErrSyntax then (0, err)
              else if \<not> neg \<and> un \<ge> cutoff then (int cutoff - 1, Some ErrRange)
              else if neg \<and> un > cutoff then (- int cutoff, Some ErrRange)
              else (if neg then - int un else int un, None)))"

definition Atoi :: "string \<Rightarrow> int \<times> NumError option" where
  "Atoi s =
     (case s of
        [] \<Rightarrow> ParseInt s
      | c # cs \<Rightarrow>
          if length s < 19 then
            (let signed = (c = CHR ''-'' \<or> c = CHR ''+'');
                 s' = (if signed then cs else s)
             in if signed \<and> length s' < 1 then (0, Some ErrSyntax)
                else (case atoi_loop 0 s' of
                        None \<Rightarrow> (0, Some ErrSyntax)
                      | Some n \<Rightarrow> (if c = CHR ''-'' then - n else n, None)))
          else ParseInt s)"

subsection \<open>The client (New and the accessors)\<close>

text \<open>
  \<^verbatim>\<open>smtp.PlainAuth\<close> of Go's net/smtp returns a pointer to a fresh
  \<^verbatim>\<open>plainAuth{identity, username, password, host}\<close>, whatever its arguments: the
  interface value it returns is never nil. An interface value that may be nil is an
  \<open>option\<close>.
\<close>

record plainAuth =
  identity :: string
  username :: string
  auth_password :: string
  auth_host :: string

definition PlainAuth :: "string \<Rightarrow> string \<Rightarrow> string \<Rightarrow> string \<Rightarrow> plainAuth option" where
  "PlainAuth ident user pw h =
     Some \<lparr>identity = ident, username = user, auth_password = pw, auth_host = h\<rparr>"

record SMTP =
  senderAddress :: string
  password :: string
  host :: string
  port :: string
  auth :: plainAuth

definition New :: "string \<Rightarrow> string \<Rightarrow> string \<Rightarrow> int \<Rightarrow> error + SMTP" where
  "New sender pw h p =
     (case PlainAuth [] sender pw h of
        None \<Rightarrow> Inl AuthError
      | Some a \<Rightarrow>
          Inr \<lparr>senderAddress = sender, password = pw, host = h, port = Itoa p, auth = a\<rparr>)"

definition GetSenderAddress :: "SMTP \<Rightarrow> string" where
  "GetSenderAddress c = senderAddress c"

definition GetPassword :: "SMTP \<Rightarrow> string" where
  "GetPassword c = password c"

definition GetHost :: "SMTP \<Rightarrow> string" where
  "GetHost c = host c"

definition GetPort :: "SMTP \<Rightarrow> int" where
  "GetPort c = fst (Atoi (port c))"

subsection \<open>The transport (net/smtp), seen from the client\<close>

text \<open>
  The SMTP protocol itself belongs to Go's net/smtp. The model records every call the
  client makes on it, and every line it prints, as an event; a transport answers a call
  with \<open>None\<close> (the call succeeded) or with the text of the error it returned, and
  the answer may depend on everything that happened before on the connection.
\<close>

record tlsConfig =
  InsecureSkipVerify :: bool
  ServerName :: string

datatype event =
    CallDial string
  | CallStartTLS tlsConfig
  | CallAuth plainAuth
  | CallMail string
  | CallRcpt string
  | CallData
  | CallWrite string
  | CallCloseWriter
  | Printf string
  | CallClose

type_synonym transport = "event list \<Rightarrow> event \<Rightarrow> string option"

subsection \<open>GetClient\<close>

text \<open>
  The result is the error or the client, with the events so far. Every \<^verbatim>\<open>return nil, ...\<close>
  of the source is a branch that ends the trace where the source returns.
\<close>

definition GetClient :: "SMTP \<Rightarrow> transport \<Rightarrow> (error + unit) \<times> event list" where
  "GetClient c srv =
     (let dial = CallDial (host c @ '':'' @ port c) in
      case srv [] dial of
        Some e \<Rightarrow> (Inl (ConnectionError e), [dial])
      | None \<Rightarrow>
     (let tls = CallStartTLS \<lparr>InsecureSkipVerify = True, ServerName = host c\<rparr> in
      case srv [dial] tls of
        Some e \<Rightarrow> (Inl (TLSError e), [dial, tls])
      | None \<Rightarrow>
     (let au = CallAuth (auth c) in
      case srv [dial, tls] au of
        Some e \<Rightarrow> (Inl (AuthFailure e), [dial, tls, au])
      | None \<Rightarrow>
     (let mail = CallMail (senderAddress c) in
      case srv [dial, tls, au] mail of
        Some e \<Rightarrow> (Inl (EnvelopeError e), [dial, tls, au, mail])
      | None \<Rightarrow> (Inr (), [dial, tls, au, mail])))))"

subsection \<open>SendMail\<close>

text \<open>
  The loop over \<^verbatim>\<open>email.To\<close>: the first rejected recipient ends it with the error
  text; \<open>tr\<close> is the trace before the loop, the result carries the trace after it.
\<close>

fun rcpt_loop :: "transport \<Rightarrow> event list \<Rightarrow> string list \<Rightarrow> string option \<times> event list" where
  "rcpt_loop srv tr [] = (None, tr)"
| "rcpt_loop srv tr (addr # rest) =
     (case srv tr (CallRcpt addr) of
        Some e \<Rightarrow> (Some e, tr @ [CallRcpt addr])
      | None \<Rightarrow> rcpt_loop srv (tr @ [CallRcpt addr]) rest)"

text \<open>
  The deferred calls run when the function returns, last registered first. The closure
  deferred at line 119 closes the data writer and prints a line when that fails; it
  assigns the local \<^verbatim>\<open>err\<close>, not the result, which the \<^verbatim>\<open>return\<close> has already set
  (the result of \<^verbatim>\<open>SendMail\<close> is unnamed). The call deferred at line 106 closes the
  client and drops the error of the close.
\<close>

definition deferred_close_writer :: "transport \<Rightarrow> event list \<Rightarrow> event list" where
  "deferred_close_writer srv tr =
     (case srv tr CallCloseWriter of
        None \<Rightarrow> tr @ [CallCloseWriter]
      | Some e \<Rightarrow>
          tr @ [CallCloseWriter,
                Printf (''send error, failed to close email writer; '' @ e @ [CHR 0x0A])])"

definition deferred_close_client :: "event list \<Rightarrow> event list" where
  "deferred_close_client tr = tr @ [CallClose]"

definition SendMail :: "SMTP \<Rightarrow> transport \<Rightarrow> Email \<Rightarrow> error option \<times> event list" where
  "SendMail c srv email =
     (case GetClient c srv of
        (Inl err, tr) \<Rightarrow> (Some err, tr)
      | (Inr client, tr) \<Rightarrow>
     (case rcpt_loop srv tr (To email) of
        (Some e, tr1) \<Rightarrow> (Some (RecipientError e), deferred_close_client tr1)
      | (None, tr1) \<Rightarrow>
     (case srv tr1 CallData of
        Some e \<Rightarrow> (Some (DataPhaseError e), deferred_close_client (tr1 @ [CallData]))
      | None \<Rightarrow>
     (let tr2 = tr1 @ [CallData];
          wr = CallWrite (message email);
          tr3 = tr2 @ [wr]
      in case srv tr2 wr of
           Some e \<Rightarrow>
             (Some (SendError (senderAddress c) (host c) (port c) e),
              deferred_close_client (deferred_close_writer srv tr3))
         | None \<Rightarrow> (None, deferred_close_client (deferred_close_writer srv tr3))))))"

text \<open>How often a trace closes the connection.\<close>

definition closes :: "event list \<Rightarrow> nat" where
  "closes tr = length (filter (\<lambda>ev. ev = CallClose) tr)"

subsection \<open>ParseBody\<close>

text \<open>
  \<^verbatim>\<open>strings.Replace(s, old, new, -1)\<close> for a pattern that is not empty: from the left,
  every occurrence of \<open>old\<close> that does not overlap an earlier one becomes \<open>new\<close>, and
  the search goes on behind the occurrence, never inside the text just written.
  (For the empty pattern Go writes \<open>new\<close> at every rune boundary; \<open>ParseBody\<close> cannot
  reach that case, its pattern holds the four braces, and the model leaves the string
  as it is there.)
\<close>

function replace_loop :: "string \<Rightarrow> string \<Rightarrow> string \<Rightarrow> string" where
  "replace_loop [] old new = []"
| "replace_loop (c # cs) old new =
     (if old \<noteq> [] \<and> prefix old (c # cs)
      then new @ replace_loop (drop (length old) (c # cs)) old new
      else c # replace_loop cs old new)"
  by pat_completeness auto
termination
  by (relation "measure (\<lambda>(s, old, new). length s)") auto

definition Replace :: "string \<Rightarrow> string \<Rightarrow> string \<Rightarrow> string" where
  "Replace s old new = (if old = new then s else replace_loop s old new)"

text \<open>
  The values of the parameter map (\<^verbatim>\<open>interface{}\<close>), for the dynamic types modelled
  here, and their text under \<^verbatim>\<open>fmt.Sprintf("%v", value)\<close>.
\<close>

datatype gvalue = VString string | VInt int | VBool bool | VNil

fun Sprintf_v :: "gvalue \<Rightarrow> string" where
  "Sprintf_v (VString s) = s"
| "Sprintf_v (VInt i) = Itoa i"
| "Sprintf_v (VBool b) = (if b then ''true'' else ''false'')"
| "Sprintf_v VNil = ''<nil>''"

definition placeholder :: "string \<Rightarrow> string" where
  "placeholder key = ''{{'' @ key @ ''}}''"

text \<open>
  \<^verbatim>\<open>range parameters\<close> visits the entries of the map in an order the Go runtime
  chooses. The parameters are the entries in the order of the visit: a list of pairs
  whose keys are distinct.
\<close>

fun ParseBody :: "string \<Rightarrow> (string \<times> gvalue) list \<Rightarrow> string" where
  "ParseBody body [] = body"
| "ParseBody body ((key, val) # rest) =
     ParseBody (Replace body (placeholder key) (Sprintf_v val)) rest"

text \<open>Two visits of the same map: the same entries, each key once.\<close>

definition same_map :: "(string \<times> gvalue) list \<Rightarrow> (string \<times> gvalue) list \<Rightarrow> bool" where
  "same_map kvs kvs' =
     (distinct (map fst kvs) \<and> distinct (map fst kvs') \<and> set kvs = set kvs')"

text \<open>Whether the text \<open>sub\<close> occurs somewhere in \<open>s\<close>.\<close>

fun occurs_in :: "string \<Rightarrow> string \<Rightarrow> bool" where
  "occurs_in sub [] = (sub = [])"
| "occurs_in sub (c # cs) = (prefix sub (c # cs) \<or> occurs_in sub cs)"

subsection \<open>Vocabulary of the properties\<close>

text \<open>
  A transport that answers the closing of the data writer with \<open>f\<close> and every other
  call as \<open>srv\<close> does; the calls of a trace, without the printed lines.
\<close>

definition with_close_writer :: "transport \<Rightarrow> (event list \<Rightarrow> string option) \<Rightarrow> transport" where
  "with_close_writer srv f = (\<lambda>tr ev. if ev = CallCloseWriter then f tr else srv tr ev)"

definition is_Printf :: "event \<Rightarrow> bool" where
  "is_Printf ev = (case ev of Printf _ \<Rightarrow> True | _ \<Rightarrow> False)"

definition calls :: "event list \<Rightarrow> event list" where
  "calls tr = filter (\<lambda>ev. \<not> is_Printf ev) tr"

text \<open>
  A body seen as a template: pieces of text and placeholders. A template is plain when no
  text holds an opening brace and no key holds a brace; an entry of the parameters is
  plain when its key holds no brace and the text of its value no opening brace.
  \<open>fill\<close> is the substitution the template asks for: every placeholder whose key the
  parameters have becomes the text of the value, in one step.
\<close>

datatype token = Text string | Hole string

fun render_token :: "token \<Rightarrow> string" where
  "render_token (Text s) = s"
| "render_token (Hole k) = placeholder k"

definition render :: "token list \<Rightarrow> string" where
  "render toks = concat (map render_token toks)"

definition brace_free :: "string \<Rightarrow> bool" where
  "brace_free s = (CHR ''{'' \<notin> set s \<and> CHR ''}'' \<notin> set s)"

fun plain_token :: "token \<Rightarrow> bool" where
  "plain_token (Text s) = (CHR ''{'' \<notin> set s)"
| "plain_token (Hole k) = brace_free k"

definition plain_entry :: "string \<times> gvalue \<Rightarrow> bool" where
  "plain_entry kv = (brace_free (fst kv) \<and> CHR ''{'' \<notin> set (Sprintf_v (snd kv)))"

fun fill :: "(string \<times> gvalue) list \<Rightarrow> token \<Rightarrow> token" where
  "fill kvs (Text s) = Text s"
| "fill kvs (Hole k) =
     (case map_of kvs k of Some v \<Rightarrow> Text (Sprintf_v v) | None \<Rightarrow> Hole k)"

section \<open>Properties\<close>

subsection \<open>The composed message\<close>

text \<open>
  C4: for the email with To = [a@x.com], no Cc, no Bcc, subject S and body B, the message
  that SendMail writes in the data phase is exactly the bytes
  \<open>Subject: S\r\nTo: a@x.com\r\n\r\nB\r\n\<close>, with no Cc or Bcc line. The first
  equation is the composed message, the second the whole run against a transport that
  accepts every call: the message is the argument of its one write.
\<close>

theorem message_single_recipient:
  "message \<lparr>To = [''a@x.com''], Cc = [], Bcc = [], Subject = ''S'', Body = ''B''\<rparr>
     = ''Subject: S'' @ [CHR 0x0D, CHR 0x0A] @ ''To: a@x.com'' @ [CHR 0x0D, CHR 0x0A]
       @ [CHR 0x0D, CHR 0x0A] @ ''B'' @ [CHR 0x0D, CHR 0x0A]
   \<and> SendMail c (\<lambda>tr ev. None)
         \<lparr>To = [''a@x.com''], Cc = [], Bcc = [], Subject = ''S'', Body = ''B''\<rparr>
     = (None,
        [CallDial (host c @ '':'' @ port c),
         CallStartTLS \<lparr>InsecureSkipVerify = True, ServerName = host c\<rparr>,
         CallAuth (auth c), CallMail (senderAddress c), CallRcpt ''a@x.com'', CallData,
         CallWrite (''Subject: S'' @ [CHR 0x0D, CHR 0x0A] @ ''To: a@x.com''
                    @ [CHR 0x0D, CHR 0x0A] @ [CHR 0x0D, CHR 0x0A] @ ''B''
                    @ [CHR 0x0D, CHR 0x0A]),
         CallCloseWriter, CallClose])"
proof -
  have m: "message \<lparr>To = [''a@x.com''], Cc = [], Bcc = [], Subject = ''S'', Body = ''B''\<rparr>
     = ''Subject: S'' @ [CHR 0x0D, CHR 0x0A] @ ''To: a@x.com'' @ [CHR 0x0D, CHR 0x0A]
       @ [CHR 0x0D, CHR 0x0A] @ ''B'' @ [CHR 0x0D, CHR 0x0A]"
    by (simp add: message_def ccStmt_def bccStmt_def CRLF_def)
  have g: "GetClient c (\<lambda>tr ev. None) =
     (Inr (), [CallDial (host c @ '':'' @ port c),
               CallStartTLS \<lparr>InsecureSkipVerify = True, ServerName = host c\<rparr>,
               CallAuth (auth c), CallMail (senderAddress c)])"
    by (simp add: GetClient_def)
  show ?thesis
    by (simp add: SendMail_def g m deferred_close_writer_def deferred_close_client_def)
qed

text \<open>
  C5: the message is the header lines in the order Subject, To, Cc (present exactly when
  Cc is not empty), Bcc (present exactly when Bcc is not empty), each with its line end,
  then the empty line, then the body and a line end. With Cc = [c@x.com, d@x.com] the
  line \<open>Cc: c@x.com,d@x.com\<close> follows the To line at once and stands before the Bcc
  line (if there is one) and the empty line.
\<close>

theorem message_header_order:
  "message email = with_line_ends (header_lines email) @ CRLF @ Body email @ CRLF
   \<and> message (email\<lparr>Cc := [''c@x.com'', ''d@x.com'']\<rparr>) =
       ''Subject: '' @ Subject email @ CRLF @
       ''To: '' @ Join (To email) '','' @ CRLF @
       ''Cc: c@x.com,d@x.com'' @ CRLF @
       bccStmt email @ CRLF @ Body email @ CRLF"
  by (simp add: message_def with_line_ends_def header_lines_def ccStmt_def bccStmt_def)

subsection \<open>Construction and the accessors\<close>

text \<open>
  C1: the claim says that a construction with empty credential material, an empty
  password in particular, fails with AuthError. The guard of \<open>New\<close> fires on a nil
  token only, and PlainAuth builds a token from every input: the construction with the
  empty password returns a client.
\<close>

theorem New_empty_password_succeeds:
  "\<not> isl (New ''a@x.com'' [] ''smtp.x.com'' 587)"
  by (simp add: New_def PlainAuth_def)

text \<open>
  C1, as the code has it: \<open>New\<close> fails exactly when PlainAuth yields no token; it
  yields one for every sender, password, host and port, so \<open>New\<close> returns a client,
  and the client carries that token.
\<close>

theorem New_fails_only_without_token:
  "(isl (New sender pw h p) \<longleftrightarrow> PlainAuth [] sender pw h = None) \<and>
   (\<exists>c. New sender pw h p = Inr c \<and> PlainAuth [] sender pw h = Some (auth c))"
  by (simp add: New_def PlainAuth_def)

text \<open>The decimal text of a number reads back as the number.\<close>

lemma atoi_loop_append:
  "atoi_loop n (xs @ ys) =
     (case atoi_loop n xs of None \<Rightarrow> None | Some m \<Rightarrow> atoi_loop m ys)"
  by (induction xs arbitrary: n) (auto simp: Let_def)

lemma digit_byte:
  "d < 10 \<Longrightarrow> (of_char (char_of (48 + d :: nat)) + 256 - 48) mod 256 = d"
  by (simp add: of_char_of)

lemma atoi_loop_formatBits:
  "atoi_loop a (formatBits m) = Some (a * 10 ^ length (formatBits m) + int m)"
proof (induction m arbitrary: a rule: formatBits.induct)
  case (1 n)
  show ?case
  proof (cases "n < 10")
    case True
    then show ?thesis
      by (subst (1 2) formatBits.simps) (simp add: digit_byte)
  next
    case False
    let ?q = "formatBits (n div 10)"
    have unfold: "formatBits n = ?q @ [char_of (48 + n mod 10)]"
      using False by (subst formatBits.simps) simp
    have d: "(of_char (char_of (48 + n mod 10 :: nat)) + 256 - 48) mod 256 = n mod 10"
      by (rule digit_byte) simp
    have last: "atoi_loop b [char_of (48 + n mod 10)] = Some (b * 10 + int (n mod 10))" for b
      using d by (simp add: Let_def)
    have n: "int (n div 10) * 10 + int (n mod 10) = int n"
      by (metis mult.commute of_nat_add of_nat_mult of_nat_numeral div_mult_mod_eq)
    have "atoi_loop a (formatBits n)
        = Some ((a * 10 ^ length ?q + int (n div 10)) * 10 + int (n mod 10))"
      unfolding unfold atoi_loop_append "1.IH"[OF False] using last by simp
    also have "(a * 10 ^ length ?q + int (n div 10)) * 10 + int (n mod 10)
        = a * 10 ^ length (formatBits n) + int n"
      using n unfolding unfold by (simp add: algebra_simps)
    finally show ?thesis .
  qed
qed

lemma length_formatBits: "0 < k \<Longrightarrow> m < 10 ^ k \<Longrightarrow> length (formatBits m) \<le> k"
proof (induction m arbitrary: k rule: formatBits.induct)
  case (1 n)
  show ?case
  proof (cases "n < 10")
    case True
    with 1 show ?thesis by (subst formatBits.simps) simp
  next
    case False
    with 1(2,3) have k: "1 < k" by (cases "k = 1") auto
    then obtain j where j: "k = Suc j" "0 < j" by (cases k) auto
    with 1(3) have "n div 10 < 10 ^ j"
      by (simp add: less_mult_imp_div_less mult.commute)
    with 1(1)[OF False j(2)] have "length (formatBits (n div 10)) \<le> j" by simp
    with False j show ?thesis by (subst formatBits.simps) simp
  qed
qed

lemma formatBits_digits:
  "c \<in> set (formatBits m) \<Longrightarrow> 48 \<le> (of_char c :: nat) \<and> (of_char c :: nat) \<le> 57"
proof (induction m rule: formatBits.induct)
  case (1 n)
  show ?case
  proof (cases "n < 10")
    case True
    with 1(2) show ?thesis by (subst (asm) formatBits.simps) (auto simp: of_char_of)
  next
    case False
    have "n mod 10 < 10" by simp
    with False 1 show ?thesis
      by (subst (asm) (2) formatBits.simps) (auto simp: of_char_of)
  qed
qed

lemma formatBits_nonempty: "formatBits m \<noteq> []"
  by (subst formatBits.simps) simp

lemma Atoi_Itoa:
  assumes "0 \<le> p" "p < 10 ^ 18"
  shows "Atoi (Itoa p) = (p, None)"
proof -
  obtain c cs where f: "formatBits (nat p) = c # cs"
    using formatBits_nonempty by (cases "formatBits (nat p)") auto
  have "c \<in> set (formatBits (nat p))" using f by simp
  from formatBits_digits[OF this] have c: "c \<noteq> CHR ''-''" "c \<noteq> CHR ''+''" by auto
  have "nat p < 10 ^ 18" using assms by (simp add: nat_less_iff)
  from length_formatBits[OF _ this] have len: "length (c # cs) < 19" using f by simp
  have "atoi_loop 0 (c # cs) = Some p"
    using atoi_loop_formatBits[of 0 "nat p"] assms f by simp
  with assms c len show ?thesis
    unfolding Atoi_def Itoa_def f
    by (simp del: atoi_loop.simps)
qed

text \<open>
  C9: with a password that is not empty and a port from 1 to 65535, \<open>New\<close> returns a
  client whose accessors give back the sender address, the password, the host and the
  port as they were supplied; the port goes through \<open>Itoa\<close> and comes back through
  \<open>Atoi\<close>.
\<close>

theorem New_accessors_roundtrip:
  assumes "pw \<noteq> []" and "1 \<le> p" and "p \<le> 65535"
  shows "\<exists>c. New sender pw h p = Inr c \<and> GetSenderAddress c = sender \<and>
             GetPassword c = pw \<and> GetHost c = h \<and> GetPort c = p"
proof -
  have "Atoi (Itoa p) = (p, None)"
    using assms(2,3) by (intro Atoi_Itoa) simp_all
  then show ?thesis
    by (simp add: New_def PlainAuth_def GetSenderAddress_def GetPassword_def GetHost_def
        GetPort_def)
qed

theorem New_accessors_roundtrip_witness:
  "\<exists>c. New ''a@x.com'' ''secret'' ''smtp.x.com'' 587 = Inr c \<and>
       GetSenderAddress c = ''a@x.com'' \<and> GetPassword c = ''secret'' \<and>
       GetHost c = ''smtp.x.com'' \<and> GetPort c = 587"
  by (rule New_accessors_roundtrip) simp_all

subsection \<open>The recipients\<close>

lemma rcpt_loop_accept:
  "(\<And>j. j < length xs \<Longrightarrow> srv (tr @ map CallRcpt (take j xs)) (CallRcpt (xs ! j)) = None)
   \<Longrightarrow> rcpt_loop srv tr xs = (None, tr @ map CallRcpt xs)"
proof (induction xs arbitrary: tr)
  case Nil
  then show ?case by simp
next
  case (Cons x xs)
  from Cons.prems[of 0] have h: "srv tr (CallRcpt x) = None" by simp
  have "rcpt_loop srv (tr @ [CallRcpt x]) xs = (None, (tr @ [CallRcpt x]) @ map CallRcpt xs)"
  proof (rule Cons.IH)
    fix j assume "j < length xs"
    with Cons.prems[of "Suc j"]
    show "srv ((tr @ [CallRcpt x]) @ map CallRcpt (take j xs)) (CallRcpt (xs ! j)) = None"
      by simp
  qed
  with h show ?case by simp
qed

lemma rcpt_loop_append:
  "rcpt_loop srv tr (xs @ ys) =
     (case rcpt_loop srv tr xs of
        (Some e, tr') \<Rightarrow> (Some e, tr')
      | (None, tr') \<Rightarrow> rcpt_loop srv tr' ys)"
  by (induction xs arbitrary: tr) (auto split: option.splits)

lemma rcpt_loop_reject:
  assumes "\<And>j. j < length pre \<Longrightarrow>
             srv (tr @ map CallRcpt (take j pre)) (CallRcpt (pre ! j)) = None"
    and "srv (tr @ map CallRcpt pre) (CallRcpt a) = Some e"
  shows "rcpt_loop srv tr (pre @ a # post) = (Some e, tr @ map CallRcpt pre @ [CallRcpt a])"
  using rcpt_loop_accept[of pre srv tr, OF assms(1)] assms(2)
  by (simp add: rcpt_loop_append)

text \<open>
  C6: the recipients are declared in the order of To. When the connection is open
  (trace \<open>tr\<close>), the recipients \<open>pre\<close> are accepted and the next one, \<open>a\<close>, is
  rejected with \<open>e\<close>, SendMail returns the RecipientError of \<open>e\<close>; the trace shows
  the declarations of \<open>pre\<close> and of \<open>a\<close> in order and then the close of the client
  only: no recipient of \<open>post\<close> is declared and the data phase is not entered.
\<close>

theorem SendMail_recipient_rejected:
  assumes "GetClient c srv = (Inr (), tr)"
    and "To email = pre @ a # post"
    and "\<forall>j < length pre. srv (tr @ map CallRcpt (take j pre)) (CallRcpt (pre ! j)) = None"
    and "srv (tr @ map CallRcpt pre) (CallRcpt a) = Some e"
  shows "SendMail c srv email =
           (Some (RecipientError e), tr @ map CallRcpt pre @ [CallRcpt a, CallClose])"
proof -
  have "rcpt_loop srv tr (To email) = (Some e, tr @ map CallRcpt pre @ [CallRcpt a])"
    unfolding assms(2) using assms(3,4) by (intro rcpt_loop_reject) auto
  then show ?thesis
    by (simp add: SendMail_def assms(1) deferred_close_client_def)
qed

theorem SendMail_recipient_rejected_witness:
  "SendMail
     \<lparr>senderAddress = ''a@x.com'', password = ''secret'', host = ''smtp.x.com'',
        port = ''587'',
        auth = \<lparr>identity = [], username = ''a@x.com'', auth_password = ''secret'',
                  auth_host = ''smtp.x.com''\<rparr>\<rparr>
     (\<lambda>tr ev. if ev = CallRcpt ''q@x.com'' then Some ''550 no such user'' else None)
     \<lparr>To = [''p@x.com'', ''q@x.com'', ''r@x.com''], Cc = [], Bcc = [], Subject = ''S'',
        Body = ''B''\<rparr>
   = (Some (RecipientError ''550 no such user''),
      [CallDial ''smtp.x.com:587'',
       CallStartTLS \<lparr>InsecureSkipVerify = True, ServerName = ''smtp.x.com''\<rparr>,
       CallAuth \<lparr>identity = [], username = ''a@x.com'', auth_password = ''secret'',
                  auth_host = ''smtp.x.com''\<rparr>,
       CallMail ''a@x.com'', CallRcpt ''p@x.com'', CallRcpt ''q@x.com'', CallClose])"
  using SendMail_recipient_rejected
    [of "\<lparr>senderAddress = ''a@x.com'', password = ''secret'', host = ''smtp.x.com'',
           port = ''587'',
           auth = \<lparr>identity = [], username = ''a@x.com'', auth_password = ''secret'',
                     auth_host = ''smtp.x.com''\<rparr>\<rparr>"
        "\<lambda>tr ev. if ev = CallRcpt ''q@x.com'' then Some ''550 no such user'' else None"
        "[CallDial ''smtp.x.com:587'',
          CallStartTLS \<lparr>InsecureSkipVerify = True, ServerName = ''smtp.x.com''\<rparr>,
          CallAuth \<lparr>identity = [], username = ''a@x.com'', auth_password = ''secret'',
                     auth_host = ''smtp.x.com''\<rparr>,
          CallMail ''a@x.com'']"
        "\<lparr>To = [''p@x.com'', ''q@x.com'', ''r@x.com''], Cc = [], Bcc = [], Subject = ''S'',
           Body = ''B''\<rparr>"
        "[''p@x.com'']" "''q@x.com''" "[''r@x.com'']" "''550 no such user''"]
  by (simp add: GetClient_def)

text \<open>Opening the connection declares no recipient.\<close>

lemma GetClient_no_rcpt: "CallRcpt a \<notin> set (snd (GetClient c srv))"
  by (auto simp: GetClient_def Let_def split: option.splits)

text \<open>
  C10: with an empty To and the connection open (trace \<open>tr\<close>), SendMail checks
  nothing of its own: the call after the opening is the one that starts the data phase,
  no recipient is declared, the result is decided by the answers of the transport to the
  data command and to the write alone, and the To line of the message is \<open>To: \<close>
  followed by the line end.
\<close>

theorem SendMail_empty_To:
  assumes "To email = []" and "GetClient c srv = (Inr (), tr)"
  shows "fst (SendMail c srv email) =
           (case srv tr CallData of
              Some e \<Rightarrow> Some (DataPhaseError e)
            | None \<Rightarrow>
               (case srv (tr @ [CallData]) (CallWrite (message email)) of
                  Some e \<Rightarrow> Some (SendError (senderAddress c) (host c) (port c) e)
                | None \<Rightarrow> None))
       \<and> take (Suc (length tr)) (snd (SendMail c srv email)) = tr @ [CallData]
       \<and> [ev \<leftarrow> snd (SendMail c srv email). \<exists>a. ev = CallRcpt a] = []
       \<and> message email =
           ''Subject: '' @ Subject email @ CRLF @ ''To: '' @ CRLF @
           ccStmt email @ bccStmt email @ CRLF @ Body email @ CRLF"
proof -
  have "CallRcpt a \<notin> set tr" for a
    using GetClient_no_rcpt[of a c srv] assms(2) by simp
  then have "[ev \<leftarrow> tr. \<exists>a. ev = CallRcpt a] = []"
    by (auto simp: filter_empty_conv)
  then show ?thesis
    by (simp add: SendMail_def assms deferred_close_client_def deferred_close_writer_def
        Let_def message_def split: option.splits)
qed

theorem SendMail_empty_To_witness:
  "SendMail
     \<lparr>senderAddress = ''a@x.com'', password = ''secret'', host = ''smtp.x.com'',
        port = ''587'',
        auth = \<lparr>identity = [], username = ''a@x.com'', auth_password = ''secret'',
                  auth_host = ''smtp.x.com''\<rparr>\<rparr>
     (\<lambda>tr ev. if ev = CallData then Some ''554 no valid recipients'' else None)
     \<lparr>To = [], Cc = [], Bcc = [], Subject = ''S'', Body = ''B''\<rparr>
   = (Some (DataPhaseError ''554 no valid recipients''),
      [CallDial ''smtp.x.com:587'',
       CallStartTLS \<lparr>InsecureSkipVerify = True, ServerName = ''smtp.x.com''\<rparr>,
       CallAuth \<lparr>identity = [], username = ''a@x.com'', auth_password = ''secret'',
                  auth_host = ''smtp.x.com''\<rparr>,
       CallMail ''a@x.com'', CallData, CallClose])
   \<and> message \<lparr>To = [], Cc = [], Bcc = [], Subject = ''S'', Body = ''B''\<rparr>
     = ''Subject: S'' @ CRLF @ ''To: '' @ CRLF @ CRLF @ ''B'' @ CRLF"
proof -
  let ?c = "\<lparr>senderAddress = ''a@x.com'', password = ''secret'', host = ''smtp.x.com'',
        port = ''587'',
        auth = \<lparr>identity = [], username = ''a@x.com'', auth_password = ''secret'',
                  auth_host = ''smtp.x.com''\<rparr>\<rparr>"
  let ?srv = "\<lambda>(tr :: event list) ev.
     if ev = CallData then Some ''554 no valid recipients'' else None"
  let ?email = "\<lparr>To = [], Cc = [], Bcc = [], Subject = ''S'', Body = ''B''\<rparr>"
  let ?tr = "[CallDial ''smtp.x.com:587'',
       CallStartTLS \<lparr>InsecureSkipVerify = True, ServerName = ''smtp.x.com''\<rparr>,
       CallAuth \<lparr>identity = [], username = ''a@x.com'', auth_password = ''secret'',
                  auth_host = ''smtp.x.com''\<rparr>,
       CallMail ''a@x.com'']"
  have h1: "To ?email = []" by simp
  have h2: "GetClient ?c ?srv = (Inr (), ?tr)" by (simp add: GetClient_def)
  have run: "snd (SendMail ?c ?srv ?email) = ?tr @ [CallData, CallClose]"
    by (simp add: SendMail_def h2 deferred_close_client_def)
  from SendMail_empty_To[OF h1 h2] run show ?thesis
    by (simp add: prod_eq_iff ccStmt_def bccStmt_def)
qed

subsection \<open>Closing the data writer\<close>

lemma GetClient_with_close_writer: "GetClient c (with_close_writer srv f) = GetClient c srv"
  by (simp add: GetClient_def with_close_writer_def Let_def split: option.splits)

lemma rcpt_loop_with_close_writer:
  "rcpt_loop (with_close_writer srv f) tr xs = rcpt_loop srv tr xs"
  by (induction xs arbitrary: tr) (simp_all add: with_close_writer_def split: option.splits)

lemma calls_deferred_close_writer:
  "calls (deferred_close_writer srv tr) = calls tr @ [CallCloseWriter]"
  by (simp add: deferred_close_writer_def calls_def is_Printf_def split: option.splits)

lemma calls_deferred_close_client: "calls (deferred_close_client tr) = calls tr @ [CallClose]"
  by (simp add: deferred_close_client_def calls_def is_Printf_def)

text \<open>
  C7: whatever the closing of the data writer answers (\<open>f\<close>, a failure or not),
  SendMail returns the value it returns when the closing answers as \<open>srv\<close> does, and
  makes the same calls on the transport. In a run that reaches the data phase (the
  connection is open with trace \<open>tr0\<close>, every recipient is accepted, trace \<open>tr1\<close>,
  and the data command is accepted), the value returned is decided by the write alone: a
  write that succeeded is a success, a write that failed is that SendError. The writer is
  closed after the write, a failed close is logged, one printed line with the text of the
  error right after the close of the writer, and the client is closed last; without a
  failure nothing is printed.
\<close>

theorem SendMail_close_writer_failure_ignored:
  "fst (SendMail c (with_close_writer srv f) email) = fst (SendMail c srv email) \<and>
   calls (snd (SendMail c (with_close_writer srv f) email)) = calls (snd (SendMail c srv email)) \<and>
   (GetClient c srv = (Inr (), tr0) \<and> rcpt_loop srv tr0 (To email) = (None, tr1) \<and>
    srv tr1 CallData = None \<longrightarrow>
      fst (SendMail c (with_close_writer srv f) email) =
        (case srv (tr1 @ [CallData]) (CallWrite (message email)) of
           Some e \<Rightarrow> Some (SendError (senderAddress c) (host c) (port c) e)
         | None \<Rightarrow> None) \<and>
      snd (SendMail c (with_close_writer srv f) email) =
        tr1 @ [CallData, CallWrite (message email), CallCloseWriter] @
        (case f (tr1 @ [CallData, CallWrite (message email)]) of
           None \<Rightarrow> []
         | Some e \<Rightarrow> [Printf (''send error, failed to close email writer; '' @ e @ [CHR 0x0A])]) @
        [CallClose])"
proof -
  have other: "with_close_writer srv f tr ev = srv tr ev" if "ev \<noteq> CallCloseWriter" for tr ev
    using that by (simp add: with_close_writer_def)
  have same: "fst (SendMail c (with_close_writer srv f) email) = fst (SendMail c srv email) \<and>
   calls (snd (SendMail c (with_close_writer srv f) email)) = calls (snd (SendMail c srv email))"
    by (simp add: SendMail_def GetClient_with_close_writer rcpt_loop_with_close_writer
        other calls_deferred_close_writer calls_deferred_close_client Let_def
        split: prod.splits sum.splits option.splits)
  have closing: "with_close_writer srv f tr CallCloseWriter = f tr" for tr
    by (simp add: with_close_writer_def)
  have logged: "fst (SendMail c (with_close_writer srv f) email) =
        (case srv (tr1 @ [CallData]) (CallWrite (message email)) of
           Some e \<Rightarrow> Some (SendError (senderAddress c) (host c) (port c) e)
         | None \<Rightarrow> None) \<and>
      snd (SendMail c (with_close_writer srv f) email) =
        tr1 @ [CallData, CallWrite (message email), CallCloseWriter] @
        (case f (tr1 @ [CallData, CallWrite (message email)]) of
           None \<Rightarrow> []
         | Some e \<Rightarrow> [Printf (''send error, failed to close email writer; '' @ e @ [CHR 0x0A])]) @
        [CallClose]"
    if "GetClient c srv = (Inr (), tr0)" "rcpt_loop srv tr0 (To email) = (None, tr1)"
       "srv tr1 CallData = None"
    using that
    by (simp add: SendMail_def GetClient_with_close_writer rcpt_loop_with_close_writer
        other closing deferred_close_writer_def deferred_close_client_def Let_def
        split: option.splits)
  from same logged show ?thesis by blast
qed

theorem SendMail_close_writer_failure_ignored_witness:
  "SendMail
     \<lparr>senderAddress = ''a@x.com'', password = ''secret'', host = ''smtp.x.com'',
        port = ''587'',
        auth = \<lparr>identity = [], username = ''a@x.com'', auth_password = ''secret'',
                  auth_host = ''smtp.x.com''\<rparr>\<rparr>
     (with_close_writer (\<lambda>tr ev. None) (\<lambda>tr. Some ''451 timeout''))
     \<lparr>To = [''p@x.com''], Cc = [], Bcc = [], Subject = ''S'', Body = ''B''\<rparr>
   = (None,
      [CallDial ''smtp.x.com:587'',
       CallStartTLS \<lparr>InsecureSkipVerify = True, ServerName = ''smtp.x.com''\<rparr>,
       CallAuth \<lparr>identity = [], username = ''a@x.com'', auth_password = ''secret'',
                  auth_host = ''smtp.x.com''\<rparr>,
       CallMail ''a@x.com'', CallRcpt ''p@x.com'', CallData,
       CallWrite (''Subject: S'' @ CRLF @ ''To: p@x.com'' @ CRLF @ CRLF @ ''B'' @ CRLF),
       CallCloseWriter,
       Printf (''send error, failed to close email writer; 451 timeout'' @ [CHR 0x0A]),
       CallClose])"
proof -
  let ?c = "\<lparr>senderAddress = ''a@x.com'', password = ''secret'', host = ''smtp.x.com'',
        port = ''587'',
        auth = \<lparr>identity = [], username = ''a@x.com'', auth_password = ''secret'',
                  auth_host = ''smtp.x.com''\<rparr>\<rparr>"
  let ?srv = "\<lambda>(tr :: event list) (ev :: event). (None :: string option)"
  let ?f = "\<lambda>tr :: event list. Some ''451 timeout''"
  let ?email = "\<lparr>To = [''p@x.com''], Cc = [], Bcc = [], Subject = ''S'', Body = ''B''\<rparr>"
  let ?tr0 = "[CallDial ''smtp.x.com:587'',
       CallStartTLS \<lparr>InsecureSkipVerify = True, ServerName = ''smtp.x.com''\<rparr>,
       CallAuth \<lparr>identity = [], username = ''a@x.com'', auth_password = ''secret'',
                  auth_host = ''smtp.x.com''\<rparr>,
       CallMail ''a@x.com'']"
  let ?tr1 = "?tr0 @ [CallRcpt ''p@x.com'']"
  have h1: "GetClient ?c ?srv = (Inr (), ?tr0)" by (simp add: GetClient_def)
  have h2: "rcpt_loop ?srv ?tr0 (To ?email) = (None, ?tr1)" by simp
  have h3: "?srv ?tr1 CallData = None" by simp
  have m: "message ?email = ''Subject: S'' @ CRLF @ ''To: p@x.com'' @ CRLF @ CRLF @ ''B'' @ CRLF"
    by (simp add: message_def ccStmt_def bccStmt_def)
  note inst = SendMail_close_writer_failure_ignored[of ?c ?srv ?f ?email ?tr0 ?tr1]
  from inst have "GetClient ?c ?srv = (Inr (), ?tr0) \<and>
        rcpt_loop ?srv ?tr0 (To ?email) = (None, ?tr1) \<and> ?srv ?tr1 CallData = None \<longrightarrow>
      fst (SendMail ?c (with_close_writer ?srv ?f) ?email) =
        (case ?srv (?tr1 @ [CallData]) (CallWrite (message ?email)) of
           Some e \<Rightarrow> Some (SendError (senderAddress ?c) (host ?c) (port ?c) e)
         | None \<Rightarrow> None) \<and>
      snd (SendMail ?c (with_close_writer ?srv ?f) ?email) =
        ?tr1 @ [CallData, CallWrite (message ?email), CallCloseWriter] @
        (case ?f (?tr1 @ [CallData, CallWrite (message ?email)]) of
           None \<Rightarrow> []
         | Some e \<Rightarrow> [Printf (''send error, failed to close email writer; '' @ e @ [CHR 0x0A])]) @
        [CallClose]"
    by (elim conjE)
  with h1 h2 h3
  have "fst (SendMail ?c (with_close_writer ?srv ?f) ?email) =
        (case ?srv (?tr1 @ [CallData]) (CallWrite (message ?email)) of
           Some e \<Rightarrow> Some (SendError (senderAddress ?c) (host ?c) (port ?c) e)
         | None \<Rightarrow> None) \<and>
      snd (SendMail ?c (with_close_writer ?srv ?f) ?email) =
        ?tr1 @ [CallData, CallWrite (message ?email), CallCloseWriter] @
        (case ?f (?tr1 @ [CallData, CallWrite (message ?email)]) of
           None \<Rightarrow> []
         | Some e \<Rightarrow> [Printf (''send error, failed to close email writer; '' @ e @ [CHR 0x0A])]) @
        [CallClose]"
    by blast
  then show ?thesis
    unfolding m by (simp add: prod_eq_iff)
qed

subsection \<open>Closing the connection\<close>

lemma closes_simps:
  "closes [] = 0"
  "closes (ev # evs) = (if ev = CallClose then 1 else 0) + closes evs"
  "closes (xs @ ys) = closes xs + closes ys"
  by (simp_all add: closes_def)

lemma GetClient_closes: "closes (snd (GetClient c srv)) = 0"
  by (auto simp: GetClient_def closes_def Let_def split: option.splits)

lemma closes_rcpt_loop: "closes (snd (rcpt_loop srv tr xs)) = closes tr"
  by (induction xs arbitrary: tr) (auto simp: closes_def split: option.splits)

lemma closes_deferred_close_writer: "closes (deferred_close_writer srv tr) = closes tr"
  by (simp add: deferred_close_writer_def closes_def split: option.splits)

text \<open>Once \<open>GetClient\<close> has returned a client, every path of SendMail closes it once.\<close>

lemma SendMail_closes_once:
  assumes "GetClient c srv = (Inr (), tr)"
  shows "closes (snd (SendMail c srv email)) = 1"
proof -
  have tr: "closes tr = 0" using GetClient_closes[of c srv] assms by simp
  obtain r tr1 where l: "rcpt_loop srv tr (To email) = (r, tr1)"
    by (cases "rcpt_loop srv tr (To email)")
  have tr1: "closes tr1 = 0" using closes_rcpt_loop[of srv tr "To email"] l tr by simp
  show ?thesis
    using tr1
    by (simp add: SendMail_def assms l deferred_close_client_def closes_simps
        closes_deferred_close_writer Let_def split: option.splits)
qed

text \<open>
  When \<open>GetClient\<close> fails, at the dial or after it, SendMail returns its error and
  the code has made no call that closes the client.
\<close>

lemma SendMail_GetClient_error_closes:
  assumes "GetClient c srv = (Inl err, tr)"
  shows "SendMail c srv email = (Some err, tr) \<and> closes tr = 0"
  using GetClient_closes[of c srv] assms by (simp add: SendMail_def)

text \<open>
  C2: the claim says that the connection is closed exactly once on every exit path, the
  failures of the opening phase after the dial included. The dial succeeds and the
  upgrade to TLS fails: \<open>GetClient\<close> returns the error without closing the client it
  dialled, and the deferred close of SendMail is not yet registered; the trace of the
  call ends with the failed upgrade and closes nothing.
\<close>

theorem SendMail_tls_failure_leaves_connection_open:
  "SendMail
     \<lparr>senderAddress = ''a@x.com'', password = ''secret'', host = ''smtp.x.com'',
        port = ''587'',
        auth = \<lparr>identity = [], username = ''a@x.com'', auth_password = ''secret'',
                  auth_host = ''smtp.x.com''\<rparr>\<rparr>
     (\<lambda>tr ev. case ev of CallStartTLS cfg \<Rightarrow> Some ''tls: handshake failure'' | _ \<Rightarrow> None)
     \<lparr>To = [''p@x.com''], Cc = [], Bcc = [], Subject = ''S'', Body = ''B''\<rparr>
   = (Some (TLSError ''tls: handshake failure''),
      [CallDial ''smtp.x.com:587'',
       CallStartTLS \<lparr>InsecureSkipVerify = True, ServerName = ''smtp.x.com''\<rparr>])
   \<and> closes
       [CallDial ''smtp.x.com:587'',
        CallStartTLS \<lparr>InsecureSkipVerify = True, ServerName = ''smtp.x.com''\<rparr>] = 0"
  by (simp add: SendMail_def GetClient_def closes_def)

subsection \<open>ParseBody\<close>

lemma placeholder_Cons: "placeholder k = CHR ''{'' # CHR ''{'' # k @ ''}}''"
  by (simp add: placeholder_def)

text \<open>The search passes over text without an opening brace.\<close>

lemma replace_loop_skip:
  "CHR ''{'' \<notin> set s \<Longrightarrow>
   replace_loop (s @ rest) (placeholder k) new = s @ replace_loop rest (placeholder k) new"
proof (induction s)
  case Nil
  then show ?case by simp
next
  case (Cons c s)
  then have "\<not> prefix (placeholder k) (c # s @ rest)"
    by (auto simp: placeholder_Cons)
  with Cons show ?case by simp
qed

text \<open>It replaces the placeholder it stands on and goes on behind it.\<close>

lemma replace_loop_hit:
  "replace_loop (placeholder k @ rest) (placeholder k) new =
     new @ replace_loop rest (placeholder k) new"
proof -
  let ?s = "CHR ''{'' # (CHR ''{'' # k @ ''}}'') @ rest"
  have "placeholder k @ rest = ?s"
    by (simp add: placeholder_Cons)
  moreover have "replace_loop ?s (placeholder k) new
      = new @ replace_loop (drop (length (placeholder k)) ?s) (placeholder k) new"
    by (subst replace_loop.simps) (simp add: placeholder_Cons)
  moreover have "drop (length (placeholder k)) ?s = rest"
    by (simp add: placeholder_Cons)
  ultimately show ?thesis by simp
qed

lemma key_prefix_eq:
  "brace_free k \<Longrightarrow> brace_free k' \<Longrightarrow> prefix (k @ ''}}'') (k' @ ''}}'' @ rest) \<Longrightarrow> k = k'"
proof (induction k arbitrary: k')
  case Nil
  then show ?case by (cases k') (auto simp: brace_free_def)
next
  case (Cons c k)
  then show ?case by (cases k') (auto simp: brace_free_def)
qed

text \<open>It passes over the placeholder of another key.\<close>

lemma replace_loop_miss:
  assumes "brace_free k" "brace_free k'" "k \<noteq> k'"
  shows "replace_loop (placeholder k' @ rest) (placeholder k) new
       = placeholder k' @ replace_loop rest (placeholder k) new"
proof -
  have 0: "\<not> prefix (placeholder k) (placeholder k' @ rest)"
    using key_prefix_eq[OF assms(1,2), of rest] assms(3) by (auto simp: placeholder_Cons)
  have 1: "\<not> prefix (placeholder k) (CHR ''{'' # k' @ ''}}'' @ rest)"
    using assms(2) by (cases k') (auto simp: placeholder_Cons brace_free_def)
  have 2: "CHR ''{'' \<notin> set (k' @ ''}}'')"
    using assms(2) by (simp add: brace_free_def)
  have "replace_loop (placeholder k' @ rest) (placeholder k) new
      = CHR ''{'' # CHR ''{'' # replace_loop ((k' @ ''}}'') @ rest) (placeholder k) new"
    using 0 1 by (simp add: placeholder_Cons)
  also have "\<dots> = placeholder k' @ replace_loop rest (placeholder k) new"
    unfolding replace_loop_skip[OF 2] by (simp add: placeholder_Cons)
  finally show ?thesis .
qed

lemma render_Cons: "render (t # toks) = render_token t @ render toks"
  by (simp add: render_def)

lemma replace_loop_render:
  assumes "brace_free k" "list_all plain_token toks"
  shows "replace_loop (render toks) (placeholder k) (Sprintf_v v)
       = render (map (fill [(k, v)]) toks)"
  using assms(2)
proof (induction toks)
  case Nil
  then show ?case by (simp add: render_def)
next
  case (Cons t toks)
  then have IH: "replace_loop (render toks) (placeholder k) (Sprintf_v v)
       = render (map (fill [(k, v)]) toks)"
    by simp
  show ?case
  proof (cases t)
    case (Text s)
    with Cons.prems have "CHR ''{'' \<notin> set s" by simp
    then show ?thesis using IH Text by (simp add: render_Cons replace_loop_skip)
  next
    case (Hole k')
    with Cons.prems have k': "brace_free k'" by simp
    show ?thesis
    proof (cases "k' = k")
      case True
      then show ?thesis using IH Hole by (simp add: render_Cons replace_loop_hit)
    next
      case False
      then have "k \<noteq> k'" by simp
      from replace_loop_miss[OF assms(1) k' this] show ?thesis
        using IH Hole False by (simp add: render_Cons)
    qed
  qed
qed

lemma placeholder_neq_plain: "CHR ''{'' \<notin> set new \<Longrightarrow> placeholder k \<noteq> new"
  by (auto simp: placeholder_Cons)

lemma Replace_render:
  assumes "plain_entry (k, v)" "list_all plain_token toks"
  shows "Replace (render toks) (placeholder k) (Sprintf_v v) = render (map (fill [(k, v)]) toks)"
  using assms replace_loop_render[of k toks v] placeholder_neq_plain[of "Sprintf_v v" k]
  by (simp add: Replace_def plain_entry_def)

lemma plain_fill:
  assumes "list_all plain_entry kvs" "plain_token t"
  shows "plain_token (fill kvs t)"
proof (cases t)
  case (Text s)
  with assms(2) show ?thesis by simp
next
  case (Hole k)
  show ?thesis
  proof (cases "map_of kvs k")
    case None
    with assms(2) Hole show ?thesis by simp
  next
    case (Some v)
    then have "(k, v) \<in> set kvs" by (rule map_of_SomeD)
    with assms(1) have "plain_entry (k, v)" by (simp add: list_all_iff)
    with Some Hole show ?thesis by (simp add: plain_entry_def)
  qed
qed

lemma fill_fill: "fill rest (fill [(k, v)] t) = fill ((k, v) # rest) t"
  by (cases t) auto

text \<open>
  On a plain template with plain parameters, the substitutions of \<open>ParseBody\<close>, made
  one key after the other, add up to the one substitution \<open>fill\<close>.
\<close>

lemma ParseBody_render:
  assumes "list_all plain_entry kvs" "list_all plain_token toks"
  shows "ParseBody (render toks) kvs = render (map (fill kvs) toks)"
  using assms
proof (induction kvs arbitrary: toks)
  case Nil
  have "fill [] t = t" for t by (cases t) auto
  then have "map (fill []) toks = toks" by (simp add: map_idI)
  then show ?case by simp
next
  case (Cons kv kvs)
  obtain k v where kv: "kv = (k, v)" by (cases kv)
  from Cons.prems kv have e: "plain_entry (k, v)" "list_all plain_entry kvs" by simp_all
  have p: "list_all plain_token (map (fill [(k, v)]) toks)"
    using Cons.prems(2) e(1) plain_fill[of "[(k, v)]"] by (simp add: list_all_iff)
  have "ParseBody (render toks) (kv # kvs) = ParseBody (render (map (fill [(k, v)]) toks)) kvs"
    by (simp add: kv Replace_render[OF e(1) Cons.prems(2)])
  also have "\<dots> = render (map (fill kvs) (map (fill [(k, v)]) toks))"
    by (rule Cons.IH[OF e(2) p])
  also have "\<dots> = render (map (fill (kv # kvs)) toks)"
    by (simp add: kv fill_fill o_def)
  finally show ?case .
qed

lemma fill_same_map:
  assumes "same_map kvs kvs'"
  shows "fill kvs = fill kvs'"
proof -
  from assms have "map_of kvs = map_of kvs'"
    by (simp add: same_map_def map_of_inject_set)
  then have "fill kvs t = fill kvs' t" for t by (cases t) auto
  then show ?thesis by (rule ext)
qed

text \<open>The decimal text of a number holds no brace.\<close>

lemma Itoa_no_open_brace: "CHR ''{'' \<notin> set (Itoa i)"
proof
  assume a: "CHR ''{'' \<in> set (Itoa i)"
  have "CHR ''{'' \<notin> set (formatBits m)" for m
    using formatBits_digits[of "CHR ''{''" m] by auto
  with a show False by (auto simp: Itoa_def split: if_splits)
qed

text \<open>
  C3: the claim says that the result does not depend on the order in which the keys are
  visited, and that a value holding the placeholder of another key is never expanded.
  The map with a = \<open>{{b}}\<close> and b = \<open>X\<close> on the body \<open>{{a}}\<close>: visited a then b,
  the text written for a is searched again and b is expanded in it (result \<open>X\<close>);
  visited b then a, it is not (result \<open>{{b}}\<close>). Both parts of the claim fail.
\<close>

theorem ParseBody_order_dependent:
  "same_map [(''a'', VString ''{{b}}''), (''b'', VString ''X'')]
            [(''b'', VString ''X''), (''a'', VString ''{{b}}'')]
   \<and> ParseBody ''{{a}}'' [(''a'', VString ''{{b}}''), (''b'', VString ''X'')] = ''X''
   \<and> ParseBody ''{{a}}'' [(''b'', VString ''X''), (''a'', VString ''{{b}}'')] = ''{{b}}''"
  by (simp add: same_map_def Replace_def placeholder_def insert_commute)

text \<open>
  C3, as the code has it: the keys are substituted one after the other, each on the
  result of the one before. When the body is a plain template and the parameters are
  plain, nothing a substitution writes can be taken for a placeholder, and two visits of
  the same map give the same result.
\<close>

theorem ParseBody_order_independent_plain:
  assumes "same_map kvs kvs'" "list_all plain_entry kvs" "list_all plain_token toks"
  shows "ParseBody (render toks) kvs = ParseBody (render toks) kvs'"
proof -
  have "list_all plain_entry kvs'"
    using assms(1,2) by (simp add: same_map_def list_all_iff)
  then show ?thesis
    using assms by (simp add: ParseBody_render fill_same_map[OF assms(1)])
qed

theorem ParseBody_order_independent_plain_witness:
  "ParseBody ''Dear {{title}} {{name}}, {{unused}}''
       [(''name'', VString ''Sam''), (''title'', VString ''Dr''), (''n'', VInt 3)]
   = ParseBody ''Dear {{title}} {{name}}, {{unused}}''
       [(''n'', VInt 3), (''title'', VString ''Dr''), (''name'', VString ''Sam'')]"
proof -
  let ?kvs = "[(''name'', VString ''Sam''), (''title'', VString ''Dr''), (''n'', VInt 3)]"
  let ?kvs' = "[(''n'', VInt 3), (''title'', VString ''Dr''), (''name'', VString ''Sam'')]"
  let ?toks = "[Text ''Dear '', Hole ''title'', Text '' '', Hole ''name'', Text '', '',
                Hole ''unused'']"
  have h1: "same_map ?kvs ?kvs'"
    by (auto simp: same_map_def)
  have h2: "list_all plain_entry ?kvs"
    by (simp add: plain_entry_def brace_free_def Itoa_no_open_brace)
  have h3: "list_all plain_token ?toks"
    by (simp add: brace_free_def)
  have r: "render ?toks = ''Dear {{title}} {{name}}, {{unused}}''"
    by (simp add: render_def placeholder_def)
  from ParseBody_order_independent_plain[OF h1 h2 h3] show ?thesis
    unfolding r .
qed

text \<open>A pattern that does not occur leaves the text as it is.\<close>

lemma replace_loop_absent: "\<not> occurs_in old s \<Longrightarrow> replace_loop s old new = s"
  by (induction s) auto

lemma Replace_absent: "\<not> occurs_in old s \<Longrightarrow> Replace s old new = s"
  by (simp add: Replace_def replace_loop_absent)

text \<open>
  C8: the claim says, of every body and every map, that each placeholder of a key of the
  map becomes the text of its value and that a key whose placeholder does not occur in
  the body is ignored. The body \<open>Hi {{greeting}}\<close> has no placeholder of the key
  \<open>name\<close>; with greeting = \<open>{{name}}!\<close> visited first, the key \<open>name\<close> is not
  ignored: the result is \<open>Hi Sam!\<close>, where the placeholder of greeting has not become
  the text of its value, which the map without \<open>name\<close> gives.
\<close>

theorem ParseBody_absent_key_not_ignored:
  "\<not> occurs_in (placeholder ''name'') ''Hi {{greeting}}''
   \<and> ParseBody ''Hi {{greeting}}''
        [(''greeting'', VString ''{{name}}!''), (''name'', VString ''Sam'')] = ''Hi Sam!''
   \<and> ParseBody ''Hi {{greeting}}'' [(''greeting'', VString ''{{name}}!'')] = ''Hi {{name}}!''"
  by (simp add: Replace_def placeholder_def)

text \<open>
  C8, as the code has it: on a plain template with plain parameters, \<open>ParseBody\<close>
  turns every placeholder whose key the map has into the text of the value, leaves the
  other placeholders as they are and is not changed by keys that have no placeholder
  in the body; \<open>ParseBody("Hello {{name}}, {{unused}}", {"name": "Sam"})\<close> is
  \<open>Hello Sam, {{unused}}\<close>; and on every body, a key whose placeholder does not
  occur in the text when its turn comes leaves the text as it is.
\<close>

theorem ParseBody_fills_placeholders:
  assumes "list_all plain_entry kvs" "list_all plain_token toks"
  shows "ParseBody (render toks) kvs = render (map (fill kvs) toks)
       \<and> ParseBody ''Hello {{name}}, {{unused}}'' [(''name'', VString ''Sam'')]
           = ''Hello Sam, {{unused}}''
       \<and> (\<not> occurs_in (placeholder k) body \<longrightarrow>
            ParseBody body ((k, v) # rest) = ParseBody body rest)"
proof -
  have "ParseBody ''Hello {{name}}, {{unused}}'' [(''name'', VString ''Sam'')]
           = ''Hello Sam, {{unused}}''"
    by (simp add: Replace_def placeholder_def)
  moreover have "ParseBody body ((k, v) # rest) = ParseBody body rest"
    if "\<not> occurs_in (placeholder k) body"
    using that by (simp add: Replace_absent)
  ultimately show ?thesis
    using ParseBody_render[OF assms] by simp
qed

theorem ParseBody_fills_placeholders_witness:
  "ParseBody ''Hello {{name}}, {{unused}}'' [(''name'', VString ''Sam''), (''n'', VInt 3)]
     = ''Hello Sam, {{unused}}''
   \<and> ParseBody ''Hello {{name}}, {{unused}}'' [(''n'', VInt 3), (''name'', VString ''Sam'')]
     = ParseBody ''Hello {{name}}, {{unused}}'' [(''name'', VString ''Sam'')]"
proof -
  let ?kvs = "[(''name'', VString ''Sam''), (''n'', VInt 3)]"
  let ?toks = "[Text ''Hello '', Hole ''name'', Text '', '', Hole ''unused'']"
  let ?body = "''Hello {{name}}, {{unused}}''"
  have h1: "list_all plain_entry ?kvs"
    by (simp add: plain_entry_def brace_free_def Itoa_no_open_brace)
  have h2: "list_all plain_token ?toks"
    by (simp add: brace_free_def)
  have h3: "\<not> occurs_in (placeholder ''n'') ?body"
    by (simp add: placeholder_def)
  have r: "render ?toks = ?body"
    by (simp add: render_def placeholder_def)
  have f: "render (map (fill ?kvs) ?toks) = ''Hello Sam, {{unused}}''"
    by (simp add: render_def placeholder_def)
  note inst = ParseBody_fills_placeholders
    [OF h1 h2, of "''n''" ?body "VInt 3" "[(''name'', VString ''Sam'')]"]
  from inst have "ParseBody (render ?toks) ?kvs = render (map (fill ?kvs) ?toks)"
    by (rule conjunct1)
  then have a: "ParseBody ?body ?kvs = ''Hello Sam, {{unused}}''"
    unfolding r f .
  from inst h3
  have b: "ParseBody ?body ((''n'', VInt 3) # [(''name'', VString ''Sam'')])
         = ParseBody ?body [(''name'', VString ''Sam'')]"
    by blast
  from a b show ?thesis by (simp only: simp_thms)
qed

end
